theory Spec2Isabelle
  imports Complex_Main
begin

section \<open>Values decoded from JSON\<close>

text \<open>
  The client passes around what \<^verbatim>\<open>response.json()\<close> returns: \<^verbatim>\<open>None\<close>, booleans,
  integers, floats, strings, lists and dictionaries whose keys are strings. A float is kept
  as the rational it denotes (the normaliser only carries values and compares keys, it never
  computes on them; NaN and the infinities, which are not JSON, are not represented). A
  dictionary is the list of its items in insertion order; a decoded dictionary has no
  repeated key, and a lookup reads the first item of that key.
\<close>

datatype json =
    JNull
  | JBool bool
  | JInt int
  | JFloat rat
  | JStr string
  | JArr "json list"
  | JObj "(string \<times> json) list"

datatype py_error =
    TypeError
  | KeyError
  | IndexError
  | AttributeError
  | ValueError
  | HTTPError nat
  | RequestException
  | JSONDecodeError

text \<open>Truth value of an object, as \<^verbatim>\<open>not response\<close> tests it.\<close>

fun py_bool :: "json \<Rightarrow> bool" where
  "py_bool JNull = False"
| "py_bool (JBool b) = b"
| "py_bool (JInt i) = (i \<noteq> 0)"
| "py_bool (JFloat r) = (r \<noteq> 0)"
| "py_bool (JStr s) = (s \<noteq> [])"
| "py_bool (JArr xs) = (xs \<noteq> [])"
| "py_bool (JObj kvs) = (kvs \<noteq> [])"

text \<open>\<^verbatim>\<open>len(x)\<close>: defined on strings, lists and dictionaries, a TypeError elsewhere.\<close>

fun py_len :: "json \<Rightarrow> py_error + nat" where
  "py_len (JStr s) = Inr (length s)"
| "py_len (JArr xs) = Inr (length xs)"
| "py_len (JObj kvs) = Inr (length kvs)"
| "py_len _ = Inl TypeError"

text \<open>
  \<^verbatim>\<open>x[i]\<close> for a non-negative integer index: an element of a list, a one-character string
  of a string, a KeyError on a dictionary (its keys are strings, so no integer is among
  them), a TypeError elsewhere.
\<close>

fun py_index :: "json \<Rightarrow> nat \<Rightarrow> py_error + json" where
  "py_index (JArr xs) i = (if i < length xs then Inr (xs ! i) else Inl IndexError)"
| "py_index (JStr s) i = (if i < length s then Inr (JStr [s ! i]) else Inl IndexError)"
| "py_index (JObj kvs) i = Inl KeyError"
| "py_index _ i = Inl TypeError"

text \<open>
  \<^verbatim>\<open>x['name']\<close> for a string key: the stored value or a KeyError on a dictionary, a
  TypeError on everything else (lists and strings take integer indices only).
\<close>

fun py_item :: "json \<Rightarrow> string \<Rightarrow> py_error + json" where
  "py_item (JObj kvs) k = (case map_of kvs k of None \<Rightarrow> Inl KeyError | Some v \<Rightarrow> Inr v)"
| "py_item _ k = Inl TypeError"

text \<open>\<^verbatim>\<open>x.get(key, default)\<close>: only a dictionary has the method.\<close>

fun py_get :: "json \<Rightarrow> string \<Rightarrow> json \<Rightarrow> py_error + json" where
  "py_get (JObj kvs) k d = Inr (case map_of kvs k of None \<Rightarrow> d | Some v \<Rightarrow> v)"
| "py_get _ k d = Inl AttributeError"

text \<open>
  What a \<^verbatim>\<open>for\<close> loop iterates over: the elements of a list, the characters of a string,
  the keys of a dictionary; the other values are not iterable.
\<close>

fun py_iter :: "json \<Rightarrow> py_error + json list" where
  "py_iter (JArr xs) = Inr xs"
| "py_iter (JStr s) = Inr (map (\<lambda>c. JStr [c]) s)"
| "py_iter (JObj kvs) = Inr (map (\<lambda>kv. JStr (fst kv)) kvs)"
| "py_iter _ = Inl TypeError"

subsection \<open>The dictionary a row is collected in\<close>

text \<open>
  \<^verbatim>\<open>row_dict\<close> is keyed by whatever a descriptor stores under \<^verbatim>\<open>'name'\<close>. Lists and
  dictionaries are unhashable and cannot be keys. Two keys are the same key when they are
  equal in Python: \<^verbatim>\<open>None\<close> with itself, strings by their text, and booleans, integers
  and floats by numeric value (\<^verbatim>\<open>True == 1 == 1.0\<close>).
\<close>

datatype hkey = KNone | KNum rat | KStr string

fun py_key :: "json \<Rightarrow> hkey option" where
  "py_key JNull = Some KNone"
| "py_key (JBool b) = Some (KNum (if b then 1 else 0))"
| "py_key (JInt i) = Some (KNum (of_int i))"
| "py_key (JFloat r) = Some (KNum r)"
| "py_key (JStr s) = Some (KStr s)"
| "py_key (JArr xs) = None"
| "py_key (JObj kvs) = None"

type_synonym row_dict = "(json \<times> json) list"

text \<open>
  Storing under a key that is already present replaces the value and keeps the item's
  place and its original key object; a new key is appended.
\<close>

fun dict_store :: "row_dict \<Rightarrow> json \<Rightarrow> json \<Rightarrow> row_dict" where
  "dict_store [] k v = [(k, v)]"
| "dict_store ((k', v') # d) k v =
     (if py_key k' = py_key k then (k', v) # d else (k', v') # dict_store d k v)"

definition dict_setitem :: "row_dict \<Rightarrow> json \<Rightarrow> json \<Rightarrow> py_error + row_dict" where
  "dict_setitem d k v = (if py_key k = None then Inl TypeError else Inr (dict_store d k v))"

text \<open>Reading a key of a collected row, \<^verbatim>\<open>None\<close> when the key is absent.\<close>

fun dict_lookup :: "row_dict \<Rightarrow> json \<Rightarrow> json option" where
  "dict_lookup [] k = None"
| "dict_lookup ((k', v') # d) k = (if py_key k' = py_key k then Some v' else dict_lookup d k)"

section \<open>The response normaliser\<close>

text \<open>
  The inner loop of \<^verbatim>\<open>parse_response\<close> over \<^verbatim>\<open>enumerate(columns)\<close>: the descriptor's name
  is read first (so a descriptor without one fails even past the end of the row), then the
  index is compared with \<^verbatim>\<open>len(row)\<close>, then \<^verbatim>\<open>row[i]\<close> is read and stored.
\<close>

fun row_loop :: "json \<Rightarrow> (nat \<times> json) list \<Rightarrow> row_dict \<Rightarrow> py_error + row_dict" where
  "row_loop row [] row_dict = Inr row_dict"
| "row_loop row ((i, col_info) # rest) row_dict =
     (case py_item col_info ''name'' of
        Inl e \<Rightarrow> Inl e
      | Inr col_name \<Rightarrow>
          (case py_len row of
             Inl e \<Rightarrow> Inl e
           | Inr n \<Rightarrow>
               if i < n then
                 (case py_index row i of
                    Inl e \<Rightarrow> Inl e
                  | Inr v \<Rightarrow>
                      (case dict_setitem row_dict col_name v of
                         Inl e \<Rightarrow> Inl e
                       | Inr row_dict' \<Rightarrow> row_loop row rest row_dict'))
               else row_loop row rest row_dict))"

text \<open>The outer loop over \<^verbatim>\<open>data_rows\<close>; \<^verbatim>\<open>columns\<close> is iterated afresh for each row.\<close>

fun rows_loop :: "json \<Rightarrow> json list \<Rightarrow> row_dict list \<Rightarrow> py_error + row_dict list" where
  "rows_loop columns [] parsed = Inr parsed"
| "rows_loop columns (row # rows) parsed =
     (case py_iter columns of
        Inl e \<Rightarrow> Inl e
      | Inr cols \<Rightarrow>
          (case row_loop row (enumerate 0 cols) [] of
             Inl e \<Rightarrow> Inl e
           | Inr row_dict \<Rightarrow> rows_loop columns rows (parsed @ [row_dict])))"

definition parse_response :: "json \<Rightarrow> py_error + row_dict list" where
  "parse_response response =
     (if \<not> py_bool response then Inr []
      else
        (case py_len response of
           Inl e \<Rightarrow> Inl e
         | Inr n \<Rightarrow>
             if n = 0 then Inr []
             else
               (case py_index response 0 of
                  Inl e \<Rightarrow> Inl e
                | Inr result \<Rightarrow>
                    (case py_get result ''columns'' (JArr []) of
                       Inl e \<Rightarrow> Inl e
                     | Inr columns \<Rightarrow>
                         (case py_get result ''data'' (JArr []) of
                            Inl e \<Rightarrow> Inl e
                          | Inr data_rows \<Rightarrow>
                              (case py_iter data_rows of
                                 Inl e \<Rightarrow> Inl e
                               | Inr rows \<Rightarrow> rows_loop columns rows []))))))"

subsection \<open>Columnar responses\<close>

text \<open>
  The shape the data model gives a result-block: a dictionary whose \<^verbatim>\<open>columns\<close> is a list
  of descriptors, each a dictionary with a string under \<^verbatim>\<open>name\<close> (other fields may be
  there too), and whose \<^verbatim>\<open>data\<close> is a list of rows, each a list of values.
  \<open>column_names\<close> and \<open>data_rows\<close> read the names and the rows off a block of that shape
  and are \<open>None\<close> on any other value.
\<close>

fun column_name :: "json \<Rightarrow> string option" where
  "column_name (JObj kvs) = (case map_of kvs ''name'' of Some (JStr n) \<Rightarrow> Some n | _ \<Rightarrow> None)"
| "column_name _ = None"

fun column_names :: "json \<Rightarrow> string list option" where
  "column_names (JObj kvs) =
     (case map_of kvs ''columns'' of Some (JArr cols) \<Rightarrow> those (map column_name cols) | _ \<Rightarrow> None)"
| "column_names _ = None"

fun row_values :: "json \<Rightarrow> json list option" where
  "row_values (JArr vs) = Some vs"
| "row_values _ = None"

fun data_rows :: "json \<Rightarrow> json list list option" where
  "data_rows (JObj kvs) =
     (case map_of kvs ''data'' of Some (JArr rows) \<Rightarrow> those (map row_values rows) | _ \<Rightarrow> None)"
| "data_rows _ = None"

text \<open>Storing a list of named values one after the other, as the inner loop does.\<close>

fun store_all :: "row_dict \<Rightarrow> (string \<times> json) list \<Rightarrow> row_dict" where
  "store_all d [] = d"
| "store_all d ((n, v) # nvs) = store_all (dict_store d (JStr n) v) nvs"

text \<open>
  The record of one row: \<^verbatim>\<open>row_dict[name] = value\<close> for the pairs of the names zipped
  with the row's values, in order, starting from the empty dictionary.
\<close>

definition row_record :: "string list \<Rightarrow> json list \<Rightarrow> row_dict" where
  "row_record names vs = store_all [] (zip names vs)"

section \<open>The client\<close>

text \<open>
  \<^verbatim>\<open>a or b\<close> on optional strings: \<^verbatim>\<open>a\<close> when it is a non-empty string, \<^verbatim>\<open>b\<close> otherwise.
\<close>

fun py_or :: "string option \<Rightarrow> string option \<Rightarrow> string option" where
  "py_or (Some s) b = (if s \<noteq> [] then Some s else b)"
| "py_or None b = b"

definition rstrip_slash :: "string \<Rightarrow> string" where
  "rstrip_slash s = rev (dropWhile (\<lambda>c. c = CHR ''/'') (rev s))"

definition lstrip_slash :: "string \<Rightarrow> string" where
  "lstrip_slash s = dropWhile (\<lambda>c. c = CHR ''/'') s"

text \<open>\<^verbatim>\<open>str.upper\<close> on ASCII text.\<close>

definition upper_char :: "char \<Rightarrow> char" where
  "upper_char c =
     (case map_of (zip ''abcdefghijklmnopqrstuvwxyz'' ''ABCDEFGHIJKLMNOPQRSTUVWXYZ'') c of
        None \<Rightarrow> c
      | Some u \<Rightarrow> u)"

definition upper :: "string \<Rightarrow> string" where
  "upper s = map upper_char s"

definition default_base_url :: string where
  "default_base_url = ''https://opabinia.cambrian.network/api/v1''"

record CambrianAPI =
  api_key :: string
  base_url :: string
  session_headers :: "(string \<times> string) list"

text \<open>
  \<^verbatim>\<open>base_url or os.getenv('CAMBRIAN_BASE_URL', default)\<close>: the argument when it is a
  non-empty string, else the environment's value, else the production endpoint.
\<close>

definition configured_base_url :: "string option \<Rightarrow> (string \<rightharpoonup> string) \<Rightarrow> string option" where
  "configured_base_url base_url_arg environ =
     py_or base_url_arg
       (Some (case environ ''CAMBRIAN_BASE_URL'' of None \<Rightarrow> default_base_url | Some u \<Rightarrow> u))"

text \<open>
  The constructor, given its two optional arguments and the process environment. The key
  is \<^verbatim>\<open>api_key or os.getenv('CAMBRIAN_API_KEY')\<close>; the base URL is computed next (calling
  \<^verbatim>\<open>rstrip\<close> on \<^verbatim>\<open>None\<close> would be an AttributeError), and only then is the key tested
  with \<^verbatim>\<open>not self.api_key\<close>.
\<close>

definition init :: "string option \<Rightarrow> string option \<Rightarrow> (string \<rightharpoonup> string) \<Rightarrow> py_error + CambrianAPI" where
  "init api_key_arg base_url_arg environ =
     (let key = py_or api_key_arg (environ ''CAMBRIAN_API_KEY'') in
      case configured_base_url base_url_arg environ of
        None \<Rightarrow> Inl AttributeError
      | Some u \<Rightarrow>
          (case key of
             None \<Rightarrow> Inl ValueError
           | Some k \<Rightarrow>
               if k = [] then Inl ValueError
               else Inr \<lparr>api_key = k, base_url = rstrip_slash u,
                         session_headers =
                           [(''X-API-KEY'', k),
                            (''Content-Type'', ''application/json''),
                            (''User-Agent'', ''CambrianAPI-Python-Client'')]\<rparr>))"

text \<open>An optional string that is there and not empty.\<close>

fun present :: "string option \<Rightarrow> bool" where
  "present None = False"
| "present (Some s) = (s \<noteq> [])"

subsection \<open>Requests\<close>

text \<open>
  The network is a parameter: a function from the request the session sends to what comes
  back, either a transport failure or a response with its status code and its body decoded
  as JSON (\<open>None\<close> when the body is not JSON).
\<close>

record request =
  req_method :: string
  req_url :: string
  req_params :: "json option"
  req_json :: "json option"
  req_headers :: "(string \<times> string) list"

datatype http_outcome = TransportFailure | Response nat "json option"

text \<open>\<^verbatim>\<open>response.raise_for_status()\<close> followed by \<^verbatim>\<open>response.json()\<close>.\<close>

fun read_response :: "http_outcome \<Rightarrow> py_error + json" where
  "read_response TransportFailure = Inl RequestException"
| "read_response (Response status body) =
     (if 400 \<le> status \<and> status < 600 then Inl (HTTPError status)
      else case body of None \<Rightarrow> Inl JSONDecodeError | Some j \<Rightarrow> Inr j)"

text \<open>
  \<^verbatim>\<open>_make_request\<close> returns the requests it sent together with its result; every error is
  re-raised after it is printed, so it is the result.
\<close>

definition make_request ::
  "CambrianAPI \<Rightarrow> (request \<Rightarrow> http_outcome) \<Rightarrow> string \<Rightarrow> string \<Rightarrow> json option \<Rightarrow> json option
     \<Rightarrow> request list \<times> (py_error + json)" where
  "make_request self transport endpoint method params data =
     (let url = base_url self @ ''/'' @ lstrip_slash endpoint in
      if upper method = ''GET'' then
        (let rq = \<lparr>req_method = ''GET'', req_url = url, req_params = params, req_json = None,
                   req_headers = session_headers self\<rparr>
         in ([rq], read_response (transport rq)))
      else if upper method = ''POST'' then
        (let rq = \<lparr>req_method = ''POST'', req_url = url, req_params = params, req_json = data,
                   req_headers = session_headers self\<rparr>
         in ([rq], read_response (transport rq)))
      else ([], Inl ValueError))"

section \<open>Sample inputs\<close>

text \<open>The worked example of the specification and the records it normalises to.\<close>

definition example_response :: json where
  "example_response =
     JArr [JObj [(''columns'', JArr [JObj [(''name'', JStr ''symbol'')],
                                     JObj [(''name'', JStr ''price'')]]),
                 (''data'', JArr [JArr [JStr ''SOL'', JFloat (751 / 5)], JArr [JStr ''BTC'']])]]"

definition example_output :: "row_dict list" where
  "example_output =
     [[(JStr ''symbol'', JStr ''SOL''), (JStr ''price'', JFloat (751 / 5))],
      [(JStr ''symbol'', JStr ''BTC'')]]"

text \<open>A block with typed descriptors, three columns and rows of length three, one and four.\<close>

definition token_block :: json where
  "token_block =
     JObj [(''columns'', JArr [JObj [(''name'', JStr ''symbol''), (''type'', JStr ''String'')],
                               JObj [(''name'', JStr ''price''), (''type'', JStr ''Float64'')],
                               JObj [(''name'', JStr ''rank''), (''type'', JStr ''UInt32'')]]),
           (''data'', JArr [JArr [JStr ''SOL'', JFloat (751 / 5), JInt 1],
                            JArr [JStr ''BTC''],
                            JArr [JStr ''ETH'', JInt 3000, JInt 2, JStr ''extra'']]),
           (''rows'', JInt 3)]"

definition other_block :: json where
  "other_block =
     JObj [(''columns'', JArr [JObj [(''name'', JStr ''slot'')]]),
           (''data'', JArr [JArr [JInt 7]])]"

text \<open>Two columns of the same name, and a repeated name past the end of a short row.\<close>

definition twin_block :: json where
  "twin_block =
     JObj [(''columns'', JArr [JObj [(''name'', JStr ''a'')], JObj [(''name'', JStr ''a'')]]),
           (''data'', JArr [JArr [JInt 1, JInt 2]])]"

definition echo_block :: json where
  "echo_block =
     JObj [(''columns'', JArr [JObj [(''name'', JStr ''a'')], JObj [(''name'', JStr ''b'')],
                               JObj [(''name'', JStr ''a'')]]),
           (''data'', JArr [JArr [JInt 1, JInt 2]])]"

text \<open>Three columns of one name, with a row that reaches all of them.\<close>

definition triple_block :: json where
  "triple_block =
     JObj [(''columns'', JArr [JObj [(''name'', JStr ''a'')], JObj [(''name'', JStr ''a'')],
                               JObj [(''name'', JStr ''a'')]]),
           (''data'', JArr [JArr [JInt 1, JInt 2, JInt 3]])]"

text \<open>An environment whose key variable is set to the empty string, and one with a key.\<close>

definition blank_key_env :: "string \<rightharpoonup> string" where
  "blank_key_env = [''CAMBRIAN_API_KEY'' \<mapsto> []]"

definition key_env :: "string \<rightharpoonup> string" where
  "key_env = [''CAMBRIAN_API_KEY'' \<mapsto> ''from-env'']"

text \<open>A client for a host named \<^verbatim>\<open>h\<close> and a network that is down.\<close>

definition demo_client :: CambrianAPI where
  "demo_client =
     \<lparr>api_key = ''k'', base_url = ''http://h'',
      session_headers = [(''X-API-KEY'', ''k''), (''Content-Type'', ''application/json''),
                         (''User-Agent'', ''CambrianAPI-Python-Client'')]\<rparr>"

definition offline :: "request \<Rightarrow> http_outcome" where
  "offline rq = TransportFailure"

section \<open>Properties of the normaliser\<close>

subsection \<open>Auxiliary facts\<close>

lemma column_name_item: "column_name c = Some n \<Longrightarrow> py_item c ''name'' = Inr (JStr n)"
  by (cases c) (auto split: option.splits json.splits)

lemma row_loop_columnar:
  "those (map column_name cols) = Some names \<Longrightarrow>
   row_loop (JArr vs) (enumerate k cols) d = Inr (store_all d (zip names (drop k vs)))"
proof (induction cols arbitrary: names k d)
  case Nil
  then show ?case by simp
next
  case (Cons c cols)
  from Cons.prems obtain n ns where n: "column_name c = Some n"
    and ns: "those (map column_name cols) = Some ns" and names: "names = n # ns"
    by (auto split: option.splits)
  show ?case
  proof (cases "k < length vs")
    case True
    then have dr: "drop k vs = vs ! k # drop (Suc k) vs"
      by (simp add: Cons_nth_drop_Suc)
    show ?thesis
      using True Cons.IH [OF ns, of "Suc k"] column_name_item [OF n]
      by (simp add: names dr dict_setitem_def)
  next
    case False
    then show ?thesis
      using Cons.IH [OF ns, of "Suc k" d] column_name_item [OF n]
      by (simp add: names)
  qed
qed

lemma rows_loop_columnar:
  "those (map column_name cols) = Some names \<Longrightarrow>
   rows_loop (JArr cols) (map JArr vss) parsed = Inr (parsed @ map (row_record names) vss)"
proof (induction vss arbitrary: parsed)
  case Nil
  then show ?case by simp
next
  case (Cons vs vss)
  have "row_loop (JArr vs) (enumerate 0 cols) [] = Inr (row_record names vs)"
    using row_loop_columnar [OF Cons.prems, of vs 0 "[]"] by (simp add: row_record_def)
  then show ?case using Cons.IH [OF Cons.prems] by simp
qed

lemma row_values_those: "those (map row_values rows) = Some vss \<Longrightarrow> rows = map JArr vss"
proof (induction rows arbitrary: vss)
  case Nil
  then show ?case by simp
next
  case (Cons x rows)
  then show ?case by (cases x) (auto split: option.splits)
qed

lemma parse_response_columnar:
  assumes "column_names b = Some names" and "data_rows b = Some vss"
  shows "parse_response (JArr (b # others)) = Inr (map (row_record names) vss)"
proof -
  from assms(1) obtain kvs cols where b: "b = JObj kvs"
    and cols: "map_of kvs ''columns'' = Some (JArr cols)"
    and names: "those (map column_name cols) = Some names"
    by (cases b) (auto split: option.splits json.splits)
  from assms(2) b obtain rows where rows: "map_of kvs ''data'' = Some (JArr rows)"
    and vss: "those (map row_values rows) = Some vss"
    by (auto split: option.splits json.splits)
  have "rows = map JArr vss" using vss by (rule row_values_those)
  then show ?thesis
    using rows_loop_columnar [OF names, of vss "[]"]
    by (simp add: parse_response_def b cols rows)
qed

lemma py_key_KStr: "py_key k = Some (KStr n) \<longleftrightarrow> k = JStr n"
  by (cases k) auto

lemma dict_lookup_store:
  "dict_lookup (dict_store d k v) k' = (if py_key k = py_key k' then Some v else dict_lookup d k')"
  by (induction d) auto

lemma dict_lookup_store_all:
  "dict_lookup (store_all d nvs) (JStr n) =
     (case map_of (rev nvs) n of Some v \<Rightarrow> Some v | None \<Rightarrow> dict_lookup d (JStr n))"
proof (induction nvs arbitrary: d)
  case Nil
  then show ?case by simp
next
  case (Cons a nvs)
  obtain m w where a: "a = (m, w)" by (cases a)
  show ?case
    by (auto simp: a Cons.IH dict_lookup_store map_add_def split: option.splits)
qed

lemma dict_store_fresh:
  "\<forall>k' \<in> fst ` set d. py_key k' \<noteq> py_key k \<Longrightarrow> dict_store d k v = d @ [(k, v)]"
  by (induction d) auto

lemma store_all_distinct:
  "distinct (map fst nvs) \<Longrightarrow> \<forall>k \<in> fst ` set d. \<forall>n \<in> fst ` set nvs. k \<noteq> JStr n \<Longrightarrow>
   store_all d nvs = d @ map (\<lambda>(n, v). (JStr n, v)) nvs"
proof (induction nvs arbitrary: d)
  case Nil
  then show ?case by simp
next
  case (Cons a nvs)
  obtain m w where a: "a = (m, w)" by (cases a)
  have fresh: "dict_store d (JStr m) w = d @ [(JStr m, w)]"
    using Cons.prems(2) by (intro dict_store_fresh) (auto simp: a py_key_KStr)
  have "store_all (d @ [(JStr m, w)]) nvs = (d @ [(JStr m, w)]) @ map (\<lambda>(n, v). (JStr n, v)) nvs"
    using Cons.prems by (intro Cons.IH) (auto simp: a)
  then show ?case by (simp add: a fresh)
qed

lemma zip_take_left: "zip (take (length ys) xs) ys = zip xs ys"
proof (induction xs arbitrary: ys)
  case Nil
  then show ?case by simp
next
  case (Cons x xs)
  then show ?case by (cases ys) simp_all
qed

lemma row_record_distinct:
  assumes "distinct (take (length vs) names)"
  shows "row_record names vs = zip (map JStr (take (length vs) names)) vs"
proof -
  have "map fst (zip names vs) = take (length vs) (take (length names) names)"
    by (simp add: map_fst_zip_take min_def)
  then have "distinct (map fst (zip names vs))"
    using assms by simp
  then have "store_all [] (zip names vs) = [] @ map (\<lambda>(n, v). (JStr n, v)) (zip names vs)"
    by (intro store_all_distinct) simp_all
  also have "\<dots> = zip (map JStr (take (length vs) names)) vs"
    by (simp add: zip_map1 zip_take_left)
  finally show ?thesis by (simp add: row_record_def)
qed

lemma dict_store_entries:
  "set (dict_store d (JStr n) v) \<subseteq> set d \<union> {(JStr n, v)}"
  by (induction d) (auto simp: py_key_KStr split: if_splits)

lemma dict_store_length: "length (dict_store d k v) \<le> Suc (length d)"
  by (induction d) auto

lemma store_all_length: "length (store_all d nvs) \<le> length d + length nvs"
proof (induction nvs arbitrary: d)
  case Nil
  then show ?case by simp
next
  case (Cons a nvs)
  obtain m w where a: "a = (m, w)" by (cases a)
  show ?case using Cons.IH [of "dict_store d (JStr m) w"] dict_store_length [of d "JStr m" w]
    by (simp add: a)
qed

lemma store_all_entries:
  "set (store_all d nvs) \<subseteq> set d \<union> (\<lambda>(n, v). (JStr n, v)) ` set nvs"
proof (induction nvs arbitrary: d)
  case Nil
  then show ?case by simp
next
  case (Cons a nvs)
  obtain m w where a: "a = (m, w)" by (cases a)
  show ?case using Cons.IH [of "dict_store d (JStr m) w"] dict_store_entries [of d m w]
    by (auto simp: a)
qed

lemma dict_store_keys:
  "map fst (dict_store d k v) =
     (if py_key k \<in> py_key ` fst ` set d then map fst d else map fst d @ [k])"
  by (induction d) (force+)

lemma rows_loop_no_columns:
  "rows_loop (JArr []) rows parsed = Inr (parsed @ map (\<lambda>row. []) rows)"
  by (induction rows arbitrary: parsed) simp_all

lemma token_block_shape:
  "column_names token_block = Some [''symbol'', ''price'', ''rank'']"
  "data_rows token_block =
     Some [[JStr ''SOL'', JFloat (751 / 5), JInt 1], [JStr ''BTC''],
           [JStr ''ETH'', JInt 3000, JInt 2, JStr ''extra'']]"
  by (simp_all add: token_block_def)

subsection \<open>Only the first block\<close>

text \<open>
  C4. On a non-empty response array the normaliser reads the first result-block only: what
  it returns (records or error) is the same whatever blocks follow the first, namely what
  it returns on the first block alone. So nothing derived from a later block can show up in
  the output.
\<close>

theorem first_block_only:
  "parse_response (JArr (b # others)) = parse_response (JArr [b])"
  by (simp add: parse_response_def)

text \<open>The same at a response of two blocks.\<close>

theorem first_block_only_sample:
  "parse_response (JArr [token_block, other_block]) = parse_response (JArr [token_block])"
  using first_block_only [of token_block "[other_block]"] by simp

subsection \<open>Empty inputs\<close>

text \<open>
  C5. A missing response (\<^verbatim>\<open>None\<close>) and an empty response array normalise to the empty
  record sequence, and so does a response array whose first block has an empty \<^verbatim>\<open>data\<close>
  sequence (whatever its columns are).
\<close>

theorem empty_inputs:
  "parse_response JNull = Inr [] \<and>
   parse_response (JArr []) = Inr [] \<and>
   (map_of kvs ''data'' = Some (JArr []) \<longrightarrow> parse_response (JArr (JObj kvs # others)) = Inr [])"
  by (simp add: parse_response_def)

theorem empty_inputs_witness:
  "map_of [(''columns'', JArr [JObj [(''name'', JStr ''a'')]]), (''data'', JArr [])] ''data''
     = Some (JArr []) \<and>
   parse_response
     (JArr [JObj [(''columns'', JArr [JObj [(''name'', JStr ''a'')]]), (''data'', JArr [])]])
     = Inr []"
  using empty_inputs
    [of "[(''columns'', JArr [JObj [(''name'', JStr ''a'')]]), (''data'', JArr [])]" "[]"]
  by simp

subsection \<open>One record per row, in order\<close>

text \<open>
  C6. On a non-empty columnar response the normaliser succeeds with exactly one record per
  row of the first block's \<^verbatim>\<open>data\<close>: the output is as long as the data, and its r-th
  record is the record of the r-th row.
\<close>

theorem one_record_per_row:
  assumes "column_names b = Some names" and "data_rows b = Some vss"
  shows "\<exists>recs. parse_response (JArr (b # others)) = Inr recs \<and> length recs = length vss \<and>
           (\<forall>r < length vss. recs ! r = row_record names (vss ! r))"
  using parse_response_columnar [OF assms, of others] by simp

theorem one_record_per_row_witness:
  "column_names token_block = Some [''symbol'', ''price'', ''rank''] \<and>
   data_rows token_block =
     Some [[JStr ''SOL'', JFloat (751 / 5), JInt 1], [JStr ''BTC''],
           [JStr ''ETH'', JInt 3000, JInt 2, JStr ''extra'']] \<and>
   (\<exists>recs. parse_response (JArr [token_block, other_block]) = Inr recs \<and> length recs = 3 \<and>
      recs ! 1 = row_record [''symbol'', ''price'', ''rank''] [JStr ''BTC''])"
proof -
  let ?vss = "[[JStr ''SOL'', JFloat (751 / 5), JInt 1], [JStr ''BTC''],
               [JStr ''ETH'', JInt 3000, JInt 2, JStr ''extra'']]"
  from one_record_per_row [OF token_block_shape, of "[other_block]"]
  obtain recs where p: "parse_response (JArr [token_block, other_block]) = Inr recs"
    and n: "length recs = length ?vss"
    and each: "\<forall>r < length ?vss. recs ! r = row_record [''symbol'', ''price'', ''rank''] (?vss ! r)"
    by blast
  from each have "recs ! 1 = row_record [''symbol'', ''price'', ''rank''] (?vss ! 1)"
    by simp
  then show ?thesis using p n token_block_shape by simp
qed

subsection \<open>Blocks without \<^verbatim>\<open>columns\<close> or \<^verbatim>\<open>data\<close>\<close>

text \<open>
  C10. A first block without the \<^verbatim>\<open>data\<close> key is read as having no rows and gives the
  empty output; a first block without the \<^verbatim>\<open>columns\<close> key is read as having no columns
  and gives one empty record per row. Neither is an error.
\<close>

theorem missing_keys_tolerated:
  "(map_of kvs ''data'' = None \<longrightarrow> parse_response (JArr (JObj kvs # others)) = Inr []) \<and>
   (map_of kvs ''columns'' = None \<and> map_of kvs ''data'' = Some (JArr rows) \<longrightarrow>
      parse_response (JArr (JObj kvs # others)) = Inr (replicate (length rows) []))"
  by (simp add: parse_response_def rows_loop_no_columns map_replicate_const)

theorem missing_keys_tolerated_witness:
  "map_of [(''columns'', JArr [JObj [(''name'', JStr ''a'')]])] ''data'' = None \<and>
   parse_response (JArr [JObj [(''columns'', JArr [JObj [(''name'', JStr ''a'')]])]]) = Inr [] \<and>
   map_of [(''data'', JArr [JArr [JInt 1], JArr []])] ''columns'' = None \<and>
   map_of [(''data'', JArr [JArr [JInt 1], JArr []])] ''data''
     = Some (JArr [JArr [JInt 1], JArr []]) \<and>
   parse_response (JArr [JObj [(''data'', JArr [JArr [JInt 1], JArr []])]]) = Inr [[], []]"
  using missing_keys_tolerated [of "[(''columns'', JArr [JObj [(''name'', JStr ''a'')]])]" "[]"]
        missing_keys_tolerated
          [of "[(''data'', JArr [JArr [JInt 1], JArr []])]" "[]" "[JArr [JInt 1], JArr []]"]
  by (simp add: numeral_2_eq_2)

subsection \<open>Facts about the record of a row\<close>

lemma dict_lookup_named:
  "dict_lookup (map (\<lambda>(n, v). (JStr n, v)) nvs) (JStr n) = map_of nvs n"
  by (induction nvs) auto

lemma dict_lookup_zip_names:
  "dict_lookup (zip (map JStr ns) vs) (JStr n) = map_of (zip ns vs) n"
  using dict_lookup_named [of "zip ns vs" n] by (simp add: zip_map1)

lemma map_of_rev_last_wins:
  "j < length xs \<Longrightarrow> xs ! j = (k, v) \<Longrightarrow>
   \<forall>j'. j < j' \<and> j' < length xs \<longrightarrow> fst (xs ! j') \<noteq> k \<Longrightarrow>
   map_of (rev xs) k = Some v"
proof (induction xs rule: rev_induct)
  case Nil
  then show ?case by simp
next
  case (snoc x xs)
  show ?case
  proof (cases "j = length xs")
    case True
    with snoc.prems(2) show ?thesis by simp
  next
    case False
    with snoc.prems(1) have j: "j < length xs" by simp
    then have at: "xs ! j = (k, v)" using snoc.prems(2) by (simp add: nth_append)
    have later: "\<forall>j'. j < j' \<and> j' < length xs \<longrightarrow> fst (xs ! j') \<noteq> k"
    proof (intro allI impI)
      fix j' assume "j < j' \<and> j' < length xs"
      then show "fst (xs ! j') \<noteq> k"
        using snoc.prems(3) [rule_format, of j'] by (simp add: nth_append)
    qed
    have "fst x \<noteq> k"
      using snoc.prems(3) [rule_format, of "length xs"] j by simp
    then show ?thesis using snoc.IH [OF j at later] by (cases x) simp
  qed
qed

lemma dict_store_distinct_keys:
  "distinct (map fst d) \<Longrightarrow> distinct (map fst (dict_store d k v))"
  by (auto simp: dict_store_keys)

lemma store_all_distinct_keys:
  "distinct (map fst d) \<Longrightarrow> distinct (map fst (store_all d nvs))"
proof (induction nvs arbitrary: d)
  case Nil
  then show ?case by simp
next
  case (Cons a nvs)
  obtain m w where a: "a = (m, w)" by (cases a)
  show ?case using Cons.IH [OF dict_store_distinct_keys [OF Cons.prems]] by (simp add: a)
qed

lemma dict_store_key_set:
  "fst ` set (dict_store d (JStr n) v) = insert (JStr n) (fst ` set d)"
  by (induction d) (force simp: py_key_KStr split: if_splits)+

lemma store_all_key_set:
  "fst ` set (store_all d nvs) = fst ` set d \<union> JStr ` fst ` set nvs"
proof (induction nvs arbitrary: d)
  case Nil
  then show ?case by simp
next
  case (Cons a nvs)
  obtain m w where a: "a = (m, w)" by (cases a)
  show ?case by (simp add: a Cons.IH dict_store_key_set)
qed

lemma set_zip_fst_take: "fst ` set (zip xs ys) = set (take (length ys) xs)"
proof -
  have "set (map fst (zip xs ys)) = set (take (min (length xs) (length ys)) xs)"
    by (simp only: map_fst_zip_take)
  also have "take (min (length xs) (length ys)) xs = take (length ys) xs"
    by (simp add: min_def)
  finally show ?thesis by simp
qed

lemma row_record_keys:
  "fst ` set (row_record names vs) = JStr ` set (take (length vs) names)"
  by (simp add: row_record_def store_all_key_set set_zip_fst_take)

lemma row_record_lookup:
  "dict_lookup (row_record names vs) (JStr n) = map_of (rev (zip names vs)) n"
  by (simp add: row_record_def dict_lookup_store_all split: option.splits)

lemma row_record_absent:
  assumes "n \<notin> set (take (length vs) names)"
  shows "dict_lookup (row_record names vs) (JStr n) = None"
proof -
  have "n \<notin> fst ` set (rev (zip names vs))"
    using assms by (simp add: set_zip_fst_take)
  then have "map_of (rev (zip names vs)) n = None"
    by (simp add: map_of_eq_None_iff)
  then show ?thesis by (simp add: row_record_lookup)
qed

lemma row_record_last_wins:
  assumes "j < length names" and "j < length vs"
    and "\<forall>j'. j < j' \<and> j' < length names \<and> j' < length vs \<longrightarrow> names ! j' \<noteq> names ! j"
  shows "dict_lookup (row_record names vs) (JStr (names ! j)) = Some (vs ! j)"
proof -
  have "map_of (rev (zip names vs)) (names ! j) = Some (vs ! j)"
    using assms by (intro map_of_rev_last_wins [of j]) auto
  then show ?thesis by (simp add: row_record_lookup)
qed

lemma row_record_length: "length (row_record names vs) \<le> length names"
  using store_all_length [of "[]" "zip names vs"] by (simp add: row_record_def)

lemma row_record_entries:
  assumes "(k, v) \<in> set (row_record names vs)"
  shows "\<exists>i. i < length names \<and> i < length vs \<and> k = JStr (names ! i) \<and> v = vs ! i"
proof -
  from assms store_all_entries [of "[]" "zip names vs"]
  obtain n where "(n, v) \<in> set (zip names vs)" and k: "k = JStr n"
    by (auto simp: row_record_def)
  then obtain i where "i < length names" "i < length vs" "names ! i = n" "vs ! i = v"
    by (auto simp: set_zip)
  with k show ?thesis by auto
qed

lemma zip_take_right: "zip xs (take (length xs) ys) = zip xs ys"
proof (induction xs arbitrary: ys)
  case Nil
  then show ?case by simp
next
  case (Cons x xs)
  then show ?case by (cases ys) simp_all
qed

lemma row_record_take: "row_record names (take (length names) vs) = row_record names vs"
  by (simp add: row_record_def zip_take_right)

subsection \<open>Rows as long as the column list\<close>

text \<open>
  C1, as amended. On a columnar response whose first block has N column descriptors with
  pairwise distinct names, a row of exactly N values is normalised to a record of exactly N
  keys, the column names in their listed order, holding the row's values in their order;
  looking up the name of the i-th descriptor gives the i-th value of the row.
\<close>

theorem full_row_record:
  assumes "column_names b = Some names" and "data_rows b = Some vss"
    and "distinct names" and "r < length vss" and "length (vss ! r) = length names"
  shows "\<exists>recs. parse_response (JArr (b # others)) = Inr recs \<and>
           length (recs ! r) = length names \<and>
           map fst (recs ! r) = map JStr names \<and>
           map snd (recs ! r) = vss ! r \<and>
           (\<forall>i < length names. dict_lookup (recs ! r) (JStr (names ! i)) = Some (vss ! r ! i))"
proof -
  let ?rec = "row_record names (vss ! r)"
  have rec: "?rec = zip (map JStr names) (vss ! r)"
    using row_record_distinct [of "vss ! r" names] assms(3,5) by simp
  have look: "\<forall>i < length names. dict_lookup ?rec (JStr (names ! i)) = Some (vss ! r ! i)"
    using assms(3,5) by (simp add: rec dict_lookup_zip_names map_of_zip_nth)
  have "parse_response (JArr (b # others)) = Inr (map (row_record names) vss)"
    using assms(1,2) by (rule parse_response_columnar)
  moreover have "map (row_record names) vss ! r = ?rec"
    using assms(4) by simp
  moreover have "length ?rec = length names" "map fst ?rec = map JStr names"
    "map snd ?rec = vss ! r"
    using assms(5) by (simp_all add: rec)
  ultimately show ?thesis using look by simp
qed

theorem full_row_record_witness:
  "\<exists>recs. parse_response (JArr [token_block]) = Inr recs \<and>
      length (recs ! 0) = 3 \<and>
      map fst (recs ! 0) = [JStr ''symbol'', JStr ''price'', JStr ''rank''] \<and>
      map snd (recs ! 0) = [JStr ''SOL'', JFloat (751 / 5), JInt 1] \<and>
      dict_lookup (recs ! 0) (JStr ''price'') = Some (JFloat (751 / 5))"
proof -
  let ?vss = "[[JStr ''SOL'', JFloat (751 / 5), JInt 1], [JStr ''BTC''],
               [JStr ''ETH'', JInt 3000, JInt 2, JStr ''extra'']]"
  let ?names = "[''symbol'', ''price'', ''rank'']"
  have "distinct ?names" "0 < length ?vss" "length (?vss ! 0) = length ?names"
    by simp_all
  from full_row_record [OF token_block_shape this, of "[]"]
  obtain recs where p: "parse_response (JArr [token_block]) = Inr recs"
    and l: "length (recs ! 0) = length ?names"
    and k: "map fst (recs ! 0) = map JStr ?names"
    and v: "map snd (recs ! 0) = ?vss ! 0"
    and g: "\<forall>i < length ?names. dict_lookup (recs ! 0) (JStr (?names ! i)) = Some (?vss ! 0 ! i)"
    by blast
  from g [rule_format, of 1]
  have "dict_lookup (recs ! 0) (JStr ''price'') = Some (JFloat (751 / 5))"
    by simp
  then show ?thesis using p l k v by simp
qed

text \<open>
  Without distinct names the count fails: two descriptors named \<^verbatim>\<open>a\<close> and the row
  \<^verbatim>\<open>[1, 2]\<close> give a record of one key, not two, and \<^verbatim>\<open>a\<close> maps to the second value.
\<close>

theorem twin_columns_collapse:
  "column_names twin_block = Some [''a'', ''a''] \<and>
   data_rows twin_block = Some [[JInt 1, JInt 2]] \<and>
   parse_response (JArr [twin_block]) = Inr [[(JStr ''a'', JInt 2)]] \<and>
   length [(JStr ''a'', JInt 2)] \<noteq> length [''a'', ''a''] \<and>
   dict_lookup [(JStr ''a'', JInt 2)] (JStr ([''a'', ''a''] ! 0)) \<noteq> Some ([JInt 1, JInt 2] ! 0)"
  by (simp add: twin_block_def parse_response_def enumerate_eq_zip dict_setitem_def)

lemma distinct_later_not_in_take:
  assumes "distinct xs" and "k \<le> j" and "j < length xs"
  shows "xs ! j \<notin> set (take k xs)"
proof
  assume "xs ! j \<in> set (take k xs)"
  then obtain i where i: "i < length (take k xs)" and eq: "take k xs ! i = xs ! j"
    by (auto simp: in_set_conv_nth)
  then have "i < k" "i < length xs" "xs ! i = xs ! j" by simp_all
  with assms show False by (simp add: nth_eq_iff_index_eq)
qed

lemma twin_block_shape:
  "column_names twin_block = Some [''a'', ''a'']"
  "data_rows twin_block = Some [[JInt 1, JInt 2]]"
  by (simp_all add: twin_block_def)

subsection \<open>Rows shorter than the column list\<close>

text \<open>
  C2, as amended. On a columnar response whose first block has N column descriptors, a row
  of k < N values is normalised to a record whose keys are exactly the names of the first k
  columns; when those k names are pairwise distinct the record is these names in order,
  paired with the row's values in order. Every name that is not the name of one of the
  first k columns is absent from the record (a lookup finds nothing, not a null or a
  default); so when all N names are pairwise distinct, the names of columns k to N-1 are
  absent. The worked example of the specification normalises to the two records it gives.
\<close>

theorem short_row_record:
  "(column_names b = Some names \<and> data_rows b = Some vss \<and> r < length vss \<and>
    length (vss ! r) = k \<and> k < length names \<longrightarrow>
      (\<exists>recs. parse_response (JArr (b # others)) = Inr recs \<and>
         fst ` set (recs ! r) = JStr ` set (take k names) \<and>
         (\<forall>n. n \<notin> set (take k names) \<longrightarrow> dict_lookup (recs ! r) (JStr n) = None) \<and>
         (distinct (take k names) \<longrightarrow> recs ! r = zip (map JStr (take k names)) (vss ! r)) \<and>
         (distinct names \<longrightarrow>
            (\<forall>j. k \<le> j \<and> j < length names \<longrightarrow>
               dict_lookup (recs ! r) (JStr (names ! j)) = None)))) \<and>
   parse_response example_response = Inr example_output"
proof (intro conjI impI)
  assume h: "column_names b = Some names \<and> data_rows b = Some vss \<and> r < length vss \<and>
    length (vss ! r) = k \<and> k < length names"
  let ?rec = "row_record names (vss ! r)"
  from h have "parse_response (JArr (b # others)) = Inr (map (row_record names) vss)"
    by (intro parse_response_columnar) simp_all
  moreover have "map (row_record names) vss ! r = ?rec"
    using h by simp
  moreover have "fst ` set ?rec = JStr ` set (take k names)"
    using h by (simp add: row_record_keys)
  moreover have "\<forall>n. n \<notin> set (take k names) \<longrightarrow> dict_lookup ?rec (JStr n) = None"
    using h by (simp add: row_record_absent)
  moreover have "distinct (take k names) \<longrightarrow> ?rec = zip (map JStr (take k names)) (vss ! r)"
    using h row_record_distinct [of "vss ! r" names] by simp
  moreover have "distinct names \<longrightarrow>
      (\<forall>j. k \<le> j \<and> j < length names \<longrightarrow> dict_lookup ?rec (JStr (names ! j)) = None)"
    using h by (simp add: row_record_absent distinct_later_not_in_take)
  ultimately show "\<exists>recs. parse_response (JArr (b # others)) = Inr recs \<and>
         fst ` set (recs ! r) = JStr ` set (take k names) \<and>
         (\<forall>n. n \<notin> set (take k names) \<longrightarrow> dict_lookup (recs ! r) (JStr n) = None) \<and>
         (distinct (take k names) \<longrightarrow> recs ! r = zip (map JStr (take k names)) (vss ! r)) \<and>
         (distinct names \<longrightarrow>
            (\<forall>j. k \<le> j \<and> j < length names \<longrightarrow>
               dict_lookup (recs ! r) (JStr (names ! j)) = None))"
    by simp
next
  show "parse_response example_response = Inr example_output"
    by (simp add: example_response_def example_output_def parse_response_def
        enumerate_eq_zip dict_setitem_def)
qed

theorem short_row_record_witness:
  "\<exists>recs. parse_response (JArr [token_block]) = Inr recs \<and>
      recs ! 1 = [(JStr ''symbol'', JStr ''BTC'')] \<and>
      dict_lookup (recs ! 1) (JStr ''price'') = None \<and>
      dict_lookup (recs ! 1) (JStr ''rank'') = None"
proof -
  let ?vss = "[[JStr ''SOL'', JFloat (751 / 5), JInt 1], [JStr ''BTC''],
               [JStr ''ETH'', JInt 3000, JInt 2, JStr ''extra'']]"
  let ?names = "[''symbol'', ''price'', ''rank'']"
  have h: "column_names token_block = Some ?names \<and> data_rows token_block = Some ?vss \<and>
      1 < length ?vss \<and> length (?vss ! 1) = 1 \<and> 1 < length ?names"
    by (simp add: token_block_shape)
  from short_row_record [of token_block ?names ?vss 1 1 "[]"] h
  obtain recs where p: "parse_response (JArr [token_block]) = Inr recs"
    and z: "distinct (take 1 ?names) \<longrightarrow> recs ! 1 = zip (map JStr (take 1 ?names)) (?vss ! 1)"
    and a: "distinct ?names \<longrightarrow>
       (\<forall>j. 1 \<le> j \<and> j < length ?names \<longrightarrow> dict_lookup (recs ! 1) (JStr (?names ! j)) = None)"
    by blast
  from z have r1: "recs ! 1 = [(JStr ''symbol'', JStr ''BTC'')]" by simp
  from a have all: "\<forall>j. 1 \<le> j \<and> j < length ?names \<longrightarrow> dict_lookup (recs ! 1) (JStr (?names ! j)) = None"
    by simp
  from all [rule_format, of 1] have "dict_lookup (recs ! 1) (JStr ''price'') = None" by simp
  moreover from all [rule_format, of 2] have "dict_lookup (recs ! 1) (JStr ''rank'') = None" by simp
  ultimately show ?thesis using p r1 by blast
qed

text \<open>
  Without distinct names a column past the end of the row can bear a name that is present:
  columns \<^verbatim>\<open>a, b, a\<close> and the row \<^verbatim>\<open>[1, 2]\<close> give \<^verbatim>\<open>{a: 1, b: 2}\<close>, where the name
  of the third column is a key of the record.
\<close>

theorem echo_name_present:
  "column_names echo_block = Some [''a'', ''b'', ''a''] \<and>
   data_rows echo_block = Some [[JInt 1, JInt 2]] \<and>
   parse_response (JArr [echo_block]) = Inr [[(JStr ''a'', JInt 1), (JStr ''b'', JInt 2)]] \<and>
   length [JInt 1, JInt 2] < length [''a'', ''b'', ''a''] \<and>
   dict_lookup [(JStr ''a'', JInt 1), (JStr ''b'', JInt 2)] (JStr ([''a'', ''b'', ''a''] ! 2))
     = Some (JInt 1)"
  by (simp add: echo_block_def parse_response_def enumerate_eq_zip dict_setitem_def)

subsection \<open>Columns of the same name\<close>

text \<open>
  C3, as amended. When two column descriptors of a columnar response share a name, the
  value of the last such column that the row reaches wins in the record of that row: if
  columns i < j have the same name, the row has a value at position j, and no column after
  j that the row reaches has that name again, then the record maps the name to the row's
  j-th value. The earlier value is overwritten, not kept beside it: the keys of the record
  are pairwise distinct, and the call succeeds.
\<close>

theorem later_column_wins:
  assumes "column_names b = Some names" and "data_rows b = Some vss" and "r < length vss"
    and "i < j" and "j < length names" and "j < length (vss ! r)"
    and "names ! i = names ! j"
    and "\<forall>j'. j < j' \<and> j' < length names \<and> j' < length (vss ! r) \<longrightarrow> names ! j' \<noteq> names ! j"
  shows "\<exists>recs. parse_response (JArr (b # others)) = Inr recs \<and>
           dict_lookup (recs ! r) (JStr (names ! i)) = Some (vss ! r ! j) \<and>
           distinct (map fst (recs ! r))"
proof -
  let ?rec = "row_record names (vss ! r)"
  have "parse_response (JArr (b # others)) = Inr (map (row_record names) vss)"
    using assms(1,2) by (rule parse_response_columnar)
  moreover have "map (row_record names) vss ! r = ?rec"
    using assms(3) by simp
  moreover have "dict_lookup ?rec (JStr (names ! i)) = Some (vss ! r ! j)"
    using row_record_last_wins [OF assms(5,6,8)] assms(7) by simp
  moreover have "distinct (map fst ?rec)"
    using store_all_distinct_keys [of "[]"] by (simp add: row_record_def)
  ultimately show ?thesis by simp
qed

theorem later_column_wins_witness:
  "\<exists>recs. parse_response (JArr [twin_block]) = Inr recs \<and>
      dict_lookup (recs ! 0) (JStr ''a'') = Some (JInt 2) \<and> distinct (map fst (recs ! 0))"
proof -
  let ?names = "[''a'', ''a'']"
  let ?vss = "[[JInt 1, JInt 2]]"
  have "0 < length ?vss" "(0::nat) < 1" "1 < length ?names" "1 < length (?vss ! 0)"
    "?names ! 0 = ?names ! 1"
    "\<forall>j'. 1 < j' \<and> j' < length ?names \<and> j' < length (?vss ! 0) \<longrightarrow> ?names ! j' \<noteq> ?names ! 1"
    by simp_all
  from later_column_wins [OF twin_block_shape this, of "[]"]
  show ?thesis by simp
qed

text \<open>
  For an arbitrary pair of same-named columns the later one need not win. With three
  columns named \<^verbatim>\<open>a\<close> and the row \<^verbatim>\<open>[1, 2, 3]\<close> the record is \<^verbatim>\<open>{a: 3}\<close>: of the first
  two columns the later one's value 2 is not what the name maps to. With columns
  \<^verbatim>\<open>a, b, a\<close> and the row \<^verbatim>\<open>[1, 2]\<close> the row ends before the later \<^verbatim>\<open>a\<close>, and the
  earlier column's value 1 stays.
\<close>

theorem later_of_pair_need_not_win:
  "column_names triple_block = Some [''a'', ''a'', ''a''] \<and>
   data_rows triple_block = Some [[JInt 1, JInt 2, JInt 3]] \<and>
   parse_response (JArr [triple_block]) = Inr [[(JStr ''a'', JInt 3)]] \<and>
   [''a'', ''a'', ''a''] ! 0 = [''a'', ''a'', ''a''] ! 1 \<and>
   dict_lookup [(JStr ''a'', JInt 3)] (JStr ([''a'', ''a'', ''a''] ! 1))
     \<noteq> Some ([JInt 1, JInt 2, JInt 3] ! 1) \<and>
   column_names echo_block = Some [''a'', ''b'', ''a''] \<and>
   data_rows echo_block = Some [[JInt 1, JInt 2]] \<and>
   parse_response (JArr [echo_block]) = Inr [[(JStr ''a'', JInt 1), (JStr ''b'', JInt 2)]] \<and>
   [''a'', ''b'', ''a''] ! 0 = [''a'', ''b'', ''a''] ! 2 \<and>
   dict_lookup [(JStr ''a'', JInt 1), (JStr ''b'', JInt 2)] (JStr ([''a'', ''b'', ''a''] ! 2))
     = Some ([JInt 1, JInt 2] ! 0)"
  by (simp add: triple_block_def echo_block_def parse_response_def enumerate_eq_zip
      dict_setitem_def)

subsection \<open>Rows longer than the column list\<close>

text \<open>
  C9. On a columnar response with N column descriptors, a row of more than N values loses
  its values at positions N and beyond without an error: its record is the record of the
  row cut to its first N values, every entry of the record is the name of some column
  i < N with the row's i-th value, and every record of the output has at most N keys.
\<close>

theorem long_row_truncated:
  assumes "column_names b = Some names" and "data_rows b = Some vss" and "r < length vss"
    and "length names < length (vss ! r)"
  shows "\<exists>recs. parse_response (JArr (b # others)) = Inr recs \<and>
           (\<forall>rec \<in> set recs. length rec \<le> length names) \<and>
           (\<forall>k v. (k, v) \<in> set (recs ! r) \<longrightarrow>
              (\<exists>i < length names. k = JStr (names ! i) \<and> v = vss ! r ! i)) \<and>
           recs ! r = row_record names (take (length names) (vss ! r))"
proof -
  let ?rec = "row_record names (vss ! r)"
  have "parse_response (JArr (b # others)) = Inr (map (row_record names) vss)"
    using assms(1,2) by (rule parse_response_columnar)
  moreover have "map (row_record names) vss ! r = ?rec"
    using assms(3) by simp
  moreover have "\<forall>rec \<in> set (map (row_record names) vss). length rec \<le> length names"
    by (auto simp: row_record_length)
  moreover have "\<forall>k v. (k, v) \<in> set ?rec \<longrightarrow>
      (\<exists>i < length names. k = JStr (names ! i) \<and> v = vss ! r ! i)"
    using row_record_entries [of _ _ names "vss ! r"] by blast
  moreover have "?rec = row_record names (take (length names) (vss ! r))"
    by (simp add: row_record_take)
  ultimately show ?thesis by simp
qed

theorem long_row_truncated_witness:
  "\<exists>recs. parse_response (JArr [token_block]) = Inr recs \<and>
      (\<forall>rec \<in> set recs. length rec \<le> 3) \<and>
      recs ! 2 = [(JStr ''symbol'', JStr ''ETH''), (JStr ''price'', JInt 3000), (JStr ''rank'', JInt 2)]"
proof -
  let ?vss = "[[JStr ''SOL'', JFloat (751 / 5), JInt 1], [JStr ''BTC''],
               [JStr ''ETH'', JInt 3000, JInt 2, JStr ''extra'']]"
  let ?names = "[''symbol'', ''price'', ''rank'']"
  have "2 < length ?vss" "length ?names < length (?vss ! 2)" by simp_all
  from long_row_truncated [OF token_block_shape this, of "[]"]
  obtain recs where p: "parse_response (JArr [token_block]) = Inr recs"
    and l: "\<forall>rec \<in> set recs. length rec \<le> length ?names"
    and t: "recs ! 2 = row_record ?names (take (length ?names) (?vss ! 2))"
    by blast
  from t have "recs ! 2 = [(JStr ''symbol'', JStr ''ETH''), (JStr ''price'', JInt 3000), (JStr ''rank'', JInt 2)]"
    by (simp add: row_record_def)
  then show ?thesis using p l by auto
qed

section \<open>Properties of the client\<close>

lemma configured_base_url_Some: "\<exists>u. configured_base_url b env = Some u"
  by (cases b) (auto simp: configured_base_url_def)

lemma py_or_value: "py_or a b = (if present a then a else b)"
  by (cases a) auto

subsection \<open>The constructor and the API key\<close>

text \<open>
  C7, as amended. Constructing a client fails with a ValueError exactly when no non-empty
  API key is available from either source: neither the explicit \<^verbatim>\<open>api_key\<close> argument nor
  the \<^verbatim>\<open>CAMBRIAN_API_KEY\<close> environment variable is a non-empty string. Otherwise it
  succeeds, with the key taken from the explicit argument when that is non-empty and from
  the environment variable otherwise.
\<close>

theorem init_value_error:
  "(init k b env = Inl ValueError \<longleftrightarrow> \<not> present k \<and> \<not> present (env ''CAMBRIAN_API_KEY'')) \<and>
   (present k \<longrightarrow> (\<exists>c. init k b env = Inr c \<and> Some (api_key c) = k)) \<and>
   (\<not> present k \<and> present (env ''CAMBRIAN_API_KEY'') \<longrightarrow>
      (\<exists>c. init k b env = Inr c \<and> Some (api_key c) = env ''CAMBRIAN_API_KEY''))"
proof -
  obtain u where u: "configured_base_url b env = Some u"
    using configured_base_url_Some by blast
  show ?thesis
  proof (cases "py_or k (env ''CAMBRIAN_API_KEY'')")
    case None
    then have "\<not> present k" "\<not> present (env ''CAMBRIAN_API_KEY'')"
      by (auto simp: py_or_value split: if_splits)
    then show ?thesis using None by (simp add: init_def u)
  next
    case (Some s)
    show ?thesis
    proof (cases "s = []")
      case True
      with Some have "\<not> present k" "\<not> present (env ''CAMBRIAN_API_KEY'')"
        by (auto simp: py_or_value split: if_splits)
      then show ?thesis using Some True by (simp add: init_def u)
    next
      case False
      with Some show ?thesis
        by (auto simp: init_def u py_or_value split: if_splits)
    qed
  qed
qed

theorem init_value_error_witness:
  "init (Some ''secret'') None key_env \<noteq> Inl ValueError \<and>
   (\<exists>c. init (Some ''secret'') None key_env = Inr c \<and> api_key c = ''secret'') \<and>
   (\<exists>c. init None None key_env = Inr c \<and> api_key c = ''from-env'') \<and>
   init None None Map.empty = Inl ValueError"
  using init_value_error [of "Some ''secret''" None key_env]
        init_value_error [of None None key_env]
        init_value_error [of None None Map.empty]
  by (simp add: key_env_def)

text \<open>
  A variable that is set, but to the empty string, does not count: with no explicit key the
  constructor raises although \<^verbatim>\<open>CAMBRIAN_API_KEY\<close> is in the environment.
\<close>

theorem blank_env_key_raises:
  "blank_key_env ''CAMBRIAN_API_KEY'' = Some [] \<and>
   init None None blank_key_env = Inl ValueError"
  by (simp add: blank_key_env_def init_def configured_base_url_def default_base_url_def)

lemma rstrip_slash_id: "u = [] \<or> last u \<noteq> CHR ''/'' \<Longrightarrow> rstrip_slash u = u"
  by (cases u rule: rev_cases) (auto simp: rstrip_slash_def)

lemma lstrip_slash_id: "e = [] \<or> hd e \<noteq> CHR ''/'' \<Longrightarrow> lstrip_slash e = e"
  by (cases e) (auto simp: lstrip_slash_def)

lemma init_base_url:
  "init k b env = Inr self \<Longrightarrow> configured_base_url b env = Some u \<Longrightarrow> base_url self = rstrip_slash u"
  by (auto simp: init_def Let_def split: option.splits if_splits)

lemma make_request_urls:
  "map req_url (fst (make_request self transport endpoint method params data)) =
     (if upper method = ''GET'' \<or> upper method = ''POST''
      then [base_url self @ ''/'' @ lstrip_slash endpoint] else [])"
  by (simp add: make_request_def Let_def)

subsection \<open>The URL of a request\<close>

text \<open>
  C8, as amended. For a client that was constructed, \<^verbatim>\<open>_make_request\<close> with method GET
  or POST (in any letter case) sends exactly one request, and its URL is the configured
  base URL without its trailing slashes, then \<^verbatim>\<open>/\<close>, then the endpoint path without its
  leading slashes; with any other method it sends none. When the configured base URL does
  not end in a slash and the path does not start with one, that URL is the base URL, then
  \<^verbatim>\<open>/\<close>, then the path.
\<close>

theorem request_url:
  assumes "init k b env = Inr self"
  shows "\<exists>u. configured_base_url b env = Some u \<and>
           map req_url (fst (make_request self transport endpoint method params data)) =
             (if upper method = ''GET'' \<or> upper method = ''POST''
              then [rstrip_slash u @ ''/'' @ lstrip_slash endpoint] else []) \<and>
           ((u = [] \<or> last u \<noteq> CHR ''/'') \<and> (endpoint = [] \<or> hd endpoint \<noteq> CHR ''/'') \<longrightarrow>
              rstrip_slash u @ ''/'' @ lstrip_slash endpoint = u @ ''/'' @ endpoint)"
proof -
  obtain u where u: "configured_base_url b env = Some u"
    using configured_base_url_Some by blast
  have "base_url self = rstrip_slash u" using assms u by (rule init_base_url)
  then show ?thesis
    using u by (simp add: make_request_urls rstrip_slash_id lstrip_slash_id)
qed

theorem request_url_witness:
  "init (Some ''k'') (Some ''http://h/'') Map.empty = Inr demo_client \<and>
   map req_url (fst (make_request demo_client offline ''/solana/tokens'' ''get'' None None))
     = [''http://h/solana/tokens''] \<and>
   map req_url (fst (make_request demo_client offline ''solana/tokens'' ''PUT'' None None)) = []"
proof -
  have i: "init (Some ''k'') (Some ''http://h/'') Map.empty = Inr demo_client"
    by (simp add: init_def configured_base_url_def demo_client_def rstrip_slash_def)
  have c: "configured_base_url (Some ''http://h/'') Map.empty = Some ''http://h/''"
    by (simp add: configured_base_url_def)
  have up: "upper ''get'' = ''GET''" "upper ''PUT'' = ''PUT''"
    by (simp_all add: upper_def upper_char_def)
  from request_url [OF i, of offline "''/solana/tokens''" "''get''" None None]
       request_url [OF i, of offline "''solana/tokens''" "''PUT''" None None]
  show ?thesis using i
    by (simp add: c up rstrip_slash_def lstrip_slash_def)
qed

text \<open>
  A path with a leading slash is not appended as it is: the request for \<^verbatim>\<open>/solana/tokens\<close>
  goes to \<^verbatim>\<open>http://h/solana/tokens\<close>, while the base URL, a slash and the path spell
  \<^verbatim>\<open>http://h//solana/tokens\<close>.
\<close>

theorem leading_slash_stripped:
  "make_request demo_client offline ''/solana/tokens'' ''GET'' None None =
     ([\<lparr>req_method = ''GET'', req_url = ''http://h/solana/tokens'', req_params = None,
        req_json = None, req_headers = session_headers demo_client\<rparr>],
      Inl RequestException) \<and>
   base_url demo_client @ ''/'' @ ''/solana/tokens'' = ''http://h//solana/tokens'' \<and>
   ''http://h/solana/tokens'' \<noteq> base_url demo_client @ ''/'' @ ''/solana/tokens''"
  by (simp add: make_request_def demo_client_def offline_def upper_def upper_char_def
      lstrip_slash_def)

end
